theory Spec2Isabelle
  imports Main
begin

section \<open>The Transactions component of the explorer\<close>

text \<open>
  A shallow embedding of \<^verbatim>\<open>src/components/Transactions.js\<close>: a React class
  component that shows one page of the transaction history, follows the URL parameters
  \<^verbatim>\<open>ts\<close>, \<^verbatim>\<open>hash\<close> and \<^verbatim>\<open>page\<close>, and puts transactions
  announced on the websocket at the front of the first page.

  The component object \<^verbatim>\<open>this\<close> together with the browser objects it touches is a
  record \<open>world\<close>; every method takes the world and returns the new one.
  \<^verbatim>\<open>this.setState(obj)\<close> in a method is the update of the named fields of
  \<open>state\<close>; what React does with it (it applies it to a mounted component only, and
  renders again) is written out where the method is called, in the events below.
  For a value that is a string or \<^verbatim>\<open>null\<close>, \<^verbatim>\<open>null\<close> is \<open>None\<close>.
\<close>

subsection \<open>Data\<close>

text \<open>
  A transaction as the backend and the websocket deliver it. A websocket message is the
  transaction object itself with the discriminator \<^verbatim>\<open>type\<close> added; a transaction
  of a fetched page has no such field.
\<close>

record tx =
  type :: "string option"
  tx_id :: string
  timestamp :: int

text \<open>The value the promise of \<^verbatim>\<open>props.updateData\<close> resolves to.\<close>

record data =
  transactions :: "tx list"
  has_more :: bool

text \<open>
  The object \<^verbatim>\<open>obtainQueryParams\<close> builds; \<^verbatim>\<open>URLSearchParams.get\<close> gives a
  string or \<^verbatim>\<open>null\<close>.
\<close>

record queryParams =
  timestamp :: "string option"
  hash :: "string option"
  page :: "string option"

text \<open>
  The reason a promise is rejected with is any JavaScript value: \<^verbatim>\<open>null\<close>,
  \<^verbatim>\<open>undefined\<close>, a boolean, a number (\<^verbatim>\<open>NaN\<close> apart), a string such as
  \<^verbatim>\<open>'simulated error!'\<close>, or an object. \<open>JsObject\<close> is a plain object or an
  \<^verbatim>\<open>Error\<close> (given here by its message), which React does not take as a child;
  arrays, React elements and functions are left out. The component uses the value in
  two ways: as a condition
  (\<^verbatim>\<open>this.state.error && ...\<close>, lines 61 and 250), and as a child of the
  \<^verbatim>\<open>span\<close> of line 250.
\<close>

datatype js_value =
    JsNull
  | JsUndefined
  | JsBoolean bool
  | JsNumber int
  | JsString string
  | JsObject string

text \<open>A value as a condition: \<^verbatim>\<open>null\<close>, \<^verbatim>\<open>undefined\<close>, \<^verbatim>\<open>false\<close>,
  \<^verbatim>\<open>0\<close> and the empty string are false, every object is true.\<close>

fun truthy_value :: "js_value \<Rightarrow> bool" where
  "truthy_value JsNull = False"
| "truthy_value JsUndefined = False"
| "truthy_value (JsBoolean b) = b"
| "truthy_value (JsNumber n) = (n \<noteq> 0)"
| "truthy_value (JsString s) = (s \<noteq> [])"
| "truthy_value (JsObject m) = True"

fun is_object :: "js_value \<Rightarrow> bool" where
  "is_object (JsObject m) = True"
| "is_object _ = False"

text \<open>
  \<^verbatim>\<open>this.state\<close>. The field \<open>error\<close> is \<^verbatim>\<open>null\<close> or the reason the last fetch
  was rejected with, as it was given.
\<close>

record state =
  transactions :: "tx list"
  firstHash :: "string option"
  firstTimestamp :: "int option"
  lastHash :: "string option"
  lastTimestamp :: "int option"
  loading :: bool
  hasAfter :: bool
  hasBefore :: bool
  queryParams :: queryParams
  error :: js_value

text \<open>
  The world: the component's state; whether React has the component mounted; the query
  string of \<^verbatim>\<open>window.location\<close> as the list of its name/value pairs; the channels on
  which \<^verbatim>\<open>this.handleWebsocket\<close> is registered at \<^verbatim>\<open>WebSocketHandler\<close> (one
  entry per registration); and the fetches \<^verbatim>\<open>getData\<close> has issued whose promise is
  not settled yet, each with the \<^verbatim>\<open>queryParams\<close> its continuation has captured.
\<close>

record world =
  state :: state
  mounted :: bool
  location_search :: "(string \<times> string) list"
  ws_listeners :: "string list"
  pending :: "queryParams list"

datatype js_error = TypeError

text \<open>The three states of the specification, read off \<open>loading\<close> and \<open>error\<close> the
  way the component reads them: \<open>error\<close> as a condition.\<close>

datatype status = Idle | Loading | Error

definition status_of :: "state \<Rightarrow> status" where
  "status_of s = (if loading s then Loading else if truthy_value (error s) then Error else Idle)"

subsection \<open>The URL\<close>

text \<open>\<^verbatim>\<open>new URLSearchParams(window.location.search)\<close>: \<^verbatim>\<open>get\<close> returns the value of
  the first pair with the name, \<^verbatim>\<open>delete\<close> removes every pair with the name.\<close>

definition params_get :: "(string \<times> string) list \<Rightarrow> string \<Rightarrow> string option" where
  "params_get ps k = map_of ps k"

definition params_delete :: "string \<Rightarrow> (string \<times> string) list \<Rightarrow> (string \<times> string) list" where
  "params_delete k ps = filter (\<lambda>kv. fst kv \<noteq> k) ps"

definition obtainQueryParams :: "world \<Rightarrow> queryParams" where
  "obtainQueryParams w =
     \<lparr> timestamp = params_get (location_search w) ''ts'',
       hash = params_get (location_search w) ''hash'',
       page = params_get (location_search w) ''page'' \<rparr>"

definition clearQueryParams :: "world \<Rightarrow> world" where
  "clearQueryParams w =
     w\<lparr> location_search :=
          params_delete ''page'' (params_delete ''hash'' (params_delete ''ts'' (location_search w))) \<rparr>"

text \<open>A string or \<^verbatim>\<open>null\<close> as a condition: \<^verbatim>\<open>null\<close> and the empty string are false.\<close>

definition truthy :: "string option \<Rightarrow> bool" where
  "truthy v = (case v of None \<Rightarrow> False | Some s \<Rightarrow> s \<noteq> [])"

subsection \<open>The list helper\<close>

text \<open>
  Modelled from the spec: \<^verbatim>\<open>helpers.updateListWs(list, newEl, max)\<close> of
  \<^verbatim>\<open>utils/helpers\<close>, which is not among the sources. The specification's merge
  algorithm: a record whose id is already in the window leaves the window as it is;
  otherwise the record is inserted at position 0, after the last element has been dropped
  when the window already holds \<open>max\<close> records.
\<close>

definition helpers_updateListWs :: "tx list \<Rightarrow> tx \<Rightarrow> nat \<Rightarrow> tx list" where
  "helpers_updateListWs list newEl max_len =
     (if tx_id newEl \<in> set (map tx_id list) then list
      else if length list = max_len then newEl # butlast list
      else newEl # list)"

subsection \<open>The methods of the component\<close>

text \<open>
  \<^verbatim>\<open>TX_COUNT\<close> (of \<^verbatim>\<open>constants\<close>, not among the sources) and the property
  \<^verbatim>\<open>props.shouldUpdateList\<close> are parameters.
\<close>

definition constructor :: "(string \<times> string) list \<Rightarrow> world" where
  "constructor search =
     (let w0 = \<lparr> state = \<lparr> transactions = [], firstHash = None, firstTimestamp = None,
                            lastHash = None, lastTimestamp = None, loading = True,
                            hasAfter = False, hasBefore = False,
                            queryParams = \<lparr> timestamp = None, hash = None, page = None \<rparr>,
                            error = JsNull \<rparr>,
                  mounted = False, location_search = search, ws_listeners = [],
                  pending = [] \<rparr>
      in w0\<lparr> state := (state w0)\<lparr> queryParams := obtainQueryParams w0 \<rparr> \<rparr>)"

text \<open>
  \<^verbatim>\<open>getData\<close> calls \<^verbatim>\<open>props.updateData\<close> and attaches the two continuations; the
  promise settles later (\<open>fetch_resolved\<close>, \<open>fetch_rejected\<close> below). The test code
  between the two \<^verbatim>\<open>FIXME\<close> comments either rejects with \<^verbatim>\<open>'simulated error!'\<close>
  or passes the data on after a delay, so it adds no outcome: the chain ends in
  \<^verbatim>\<open>handleDataFetched(data, queryParams)\<close> or in the rejection handler.
\<close>

definition getData :: "queryParams \<Rightarrow> world \<Rightarrow> world" where
  "getData qp w = w\<lparr> pending := pending w @ [qp] \<rparr>"

definition componentDidMount :: "world \<Rightarrow> world" where
  "componentDidMount w =
     (let w1 = getData (queryParams (state w)) w
      in w1\<lparr> ws_listeners := ws_listeners w1 @ [''network''] \<rparr>)"

definition componentDidUpdate :: "state \<Rightarrow> world \<Rightarrow> world" where
  "componentDidUpdate prevState w =
     (let qp = obtainQueryParams w;
          justErrored = (truthy_value (error (state w)) \<and> \<not> truthy_value (error prevState));
          skipGetData = (loading (state w) \<or> justErrored)
      in if \<not> skipGetData \<and> \<not> (queryParams (state w) = qp) then
           (if truthy (hash qp) \<or> hasBefore (state w) then
              getData qp (w\<lparr> state := (state w)\<lparr> loading := True, error := JsNull \<rparr> \<rparr>)
            else w)
         else w)"

definition componentWillUnmount :: "world \<Rightarrow> world" where
  "componentWillUnmount w = w\<lparr> ws_listeners := remove1 ''network'' (ws_listeners w) \<rparr>"

text \<open>
  \<^verbatim>\<open>updateListWs\<close>: \<^verbatim>\<open>transactions[0]\<close> of an empty array is
  \<^verbatim>\<open>undefined\<close>, and reading \<^verbatim>\<open>tx_id\<close> of it throws before \<^verbatim>\<open>setState\<close>
  is reached.
\<close>

definition updateListWs :: "nat \<Rightarrow> (tx \<Rightarrow> bool) \<Rightarrow> tx \<Rightarrow> world \<Rightarrow> js_error + world" where
  "updateListWs TX_COUNT shouldUpdateList t w =
     (if \<not> hasBefore (state w) then
        (if shouldUpdateList t then
           (let transactions0 = transactions (state w);
                hasAfter' = (hasAfter (state w) \<or>
                             (length transactions0 = TX_COUNT \<and> \<not> hasAfter (state w)));
                transactions' = helpers_updateListWs transactions0 t TX_COUNT
            in case transactions' of
                 [] \<Rightarrow> Inl TypeError
               | first # _ \<Rightarrow>
                   Inr (w\<lparr> state := (state w)\<lparr> transactions := transactions',
                                               hasAfter := hasAfter',
                                               firstHash := Some (tx_id first),
                                               lastHash := Some (tx_id (last transactions')),
                                               firstTimestamp := Some (tx.timestamp first),
                                               lastTimestamp := Some (tx.timestamp (last transactions')) \<rparr> \<rparr>))
         else Inr w)
      else Inr w)"

definition handleWebsocket :: "nat \<Rightarrow> (tx \<Rightarrow> bool) \<Rightarrow> tx \<Rightarrow> world \<Rightarrow> js_error + world" where
  "handleWebsocket TX_COUNT shouldUpdateList wsData w =
     (if type wsData = Some ''network:new_tx_accepted''
      then updateListWs TX_COUNT shouldUpdateList wsData w
      else Inr w)"

definition handleDataFetched :: "data \<Rightarrow> queryParams \<Rightarrow> world \<Rightarrow> world" where
  "handleDataFetched d qp w =
     (let txs = data.transactions d;
          firstHash' = (if txs \<noteq> [] then Some (tx_id (hd txs)) else None);
          lastHash' = (if txs \<noteq> [] then Some (tx_id (last txs)) else None);
          firstTimestamp' = (if txs \<noteq> [] then Some (tx.timestamp (hd txs)) else None);
          lastTimestamp' = (if txs \<noteq> [] then Some (tx.timestamp (last txs)) else None);
          (hasAfter', hasBefore', w1) =
             (if page qp = Some ''previous'' then
                (True, has_more d, if \<not> has_more d then clearQueryParams w else w)
              else if page qp = Some ''next'' then
                (has_more d, True, w)
              else
                (has_more d, False, w))
      in w1\<lparr> state := (state w1)\<lparr> transactions := txs,
                                   loading := False,
                                   firstHash := firstHash',
                                   lastHash := lastHash',
                                   firstTimestamp := firstTimestamp',
                                   lastTimestamp := lastTimestamp',
                                   hasAfter := hasAfter',
                                   hasBefore := hasBefore',
                                   queryParams := qp \<rparr> \<rparr>)"

text \<open>The rejection handler of \<^verbatim>\<open>getData\<close>:
  \<^verbatim>\<open>this.setState({ loading: false, error: e })\<close>.\<close>

definition getData_rejected :: "js_value \<Rightarrow> world \<Rightarrow> world" where
  "getData_rejected e w = w\<lparr> state := (state w)\<lparr> loading := False, error := e \<rparr> \<rparr>"

text \<open>
  Line 250 of \<^verbatim>\<open>render\<close>:
  \<^verbatim>\<open>{this.state.error && <span ...>... [{this.state.error}]</span>}\<close>.
  When the error is true as a condition it becomes a child of the \<^verbatim>\<open>span\<close>, and
  React throws on a child that is a plain object ("Objects are not valid as a React
  child"); a string, a number or a boolean is a valid child.
\<close>

definition render_throws :: "state \<Rightarrow> bool" where
  "render_throws s = (truthy_value (error s) \<and> is_object (error s))"

subsection \<open>Events\<close>

text \<open>
  What can happen to the component, one event at a time (the event loop is single
  threaded):
  \<^item> the URL changes (a pagination link was followed);
  \<^item> React calls \<^verbatim>\<open>componentDidUpdate(prevProps, prevState)\<close>, which it does on a
    mounted component after every re-render, with the state before the update. The event
    carries that state, and may carry any: the runs below include the calls React really
    makes;
  \<^item> the promise of a pending fetch settles (the fetch is named by its position among the
    pending ones, so they may settle in any order), with a page or with a rejection;
  \<^item> \<^verbatim>\<open>WebSocketHandler\<close> emits a message on a channel;
  \<^item> React unmounts the component and calls \<^verbatim>\<open>componentWillUnmount\<close>.

  React applies a \<^verbatim>\<open>setState\<close> to a mounted component only: on an unmounted one it is
  dropped (with a warning), while whatever else the callback does is done.
\<close>

datatype event =
    UrlChanged "(string \<times> string) list"
  | DidUpdate state
  | FetchResolved nat data
  | FetchRejected nat js_value
  | WsEmit string tx
  | Unmount

definition unmount :: "world \<Rightarrow> world" where
  "unmount w = (if mounted w then (componentWillUnmount w)\<lparr> mounted := False \<rparr> else w)"

text \<open>
  Modelled from the spec: \<^verbatim>\<open>WebSocketHandler\<close> (not among the sources), the Live Feed
  with subscribe/unsubscribe to a named channel: \<open>emit\<close> calls the listener once for each
  registration on the channel. An exception a listener throws ends the delivery and is
  not caught by the component: the world stays as it was when it was thrown.
\<close>

fun emit :: "nat \<Rightarrow> (tx \<Rightarrow> bool) \<Rightarrow> string \<Rightarrow> tx \<Rightarrow> string list \<Rightarrow> world \<Rightarrow> world" where
  "emit TX_COUNT shouldUpdateList channel wsData [] w = w"
| "emit TX_COUNT shouldUpdateList channel wsData (l # ls) w =
     (if l = channel then
        (case handleWebsocket TX_COUNT shouldUpdateList wsData w of
           Inl _ \<Rightarrow> w
         | Inr w' \<Rightarrow>
             emit TX_COUNT shouldUpdateList channel wsData ls (if mounted w then w' else w))
      else emit TX_COUNT shouldUpdateList channel wsData ls w)"

definition settle :: "nat \<Rightarrow> world \<Rightarrow> world" where
  "settle i w = w\<lparr> pending := take i (pending w) @ drop (Suc i) (pending w) \<rparr>"

text \<open>
  The promise resolves: \<^verbatim>\<open>handleDataFetched(data, queryParams)\<close> runs. On an unmounted
  component its \<^verbatim>\<open>setState\<close> is dropped; \<^verbatim>\<open>clearQueryParams\<close> is not React's and
  is done all the same.
\<close>

definition fetch_resolved :: "nat \<Rightarrow> data \<Rightarrow> world \<Rightarrow> world" where
  "fetch_resolved i d w =
     (if i < length (pending w) then
        (let w' = handleDataFetched d (pending w ! i) (settle i w)
         in if mounted w then w' else w'\<lparr> state := state w \<rparr>)
      else w)"

text \<open>
  The promise is rejected: the rejection handler runs. On an unmounted component its
  \<^verbatim>\<open>setState\<close> is dropped. On a mounted one React renders again, and this is the one
  \<^verbatim>\<open>setState\<close> that can put an object into \<open>error\<close>: then the render throws out of
  \<^verbatim>\<open>setState\<close>, and React, with no error boundary around, unmounts the tree.
\<close>

definition fetch_rejected :: "nat \<Rightarrow> js_value \<Rightarrow> world \<Rightarrow> world" where
  "fetch_rejected i e w =
     (if i < length (pending w) then
        (let w1 = settle i w
         in if \<not> mounted w1 then w1
            else (let w2 = getData_rejected e w1
                  in if render_throws (state w2) then unmount w2 else w2))
      else w)"

fun handle_event :: "nat \<Rightarrow> (tx \<Rightarrow> bool) \<Rightarrow> event \<Rightarrow> world \<Rightarrow> world" where
  "handle_event TX_COUNT shouldUpdateList (UrlChanged search) w = w\<lparr> location_search := search \<rparr>"
| "handle_event TX_COUNT shouldUpdateList (DidUpdate prevState) w =
     (if mounted w then componentDidUpdate prevState w else w)"
| "handle_event TX_COUNT shouldUpdateList (FetchResolved i d) w = fetch_resolved i d w"
| "handle_event TX_COUNT shouldUpdateList (FetchRejected i e) w = fetch_rejected i e w"
| "handle_event TX_COUNT shouldUpdateList (WsEmit channel wsData) w =
     emit TX_COUNT shouldUpdateList channel wsData (ws_listeners w) w"
| "handle_event TX_COUNT shouldUpdateList Unmount w = unmount w"

fun run :: "nat \<Rightarrow> (tx \<Rightarrow> bool) \<Rightarrow> event list \<Rightarrow> world \<Rightarrow> world" where
  "run TX_COUNT shouldUpdateList [] w = w"
| "run TX_COUNT shouldUpdateList (ev # evs) w =
     run TX_COUNT shouldUpdateList evs (handle_event TX_COUNT shouldUpdateList ev w)"

text \<open>Mounting: the constructor, then \<^verbatim>\<open>componentDidMount\<close>; React has the component
  mounted from then on.\<close>

definition mount :: "(string \<times> string) list \<Rightarrow> world" where
  "mount search = (componentDidMount (constructor search))\<lparr> mounted := True \<rparr>"

subsection \<open>Predicates used in the statements\<close>

text \<open>What a websocket delivery leaves alone: everything but the window, its boundary
  cursors and \<open>hasAfter\<close>.\<close>

definition ws_frame :: "world \<Rightarrow> world \<Rightarrow> bool" where
  "ws_frame w w' =
     (pending w' = pending w \<and> location_search w' = location_search w \<and>
      mounted w' = mounted w \<and>
      ws_listeners w' = ws_listeners w \<and> loading (state w') = loading (state w) \<and>
      error (state w') = error (state w) \<and> hasBefore (state w') = hasBefore (state w) \<and>
      queryParams (state w') = queryParams (state w))"

text \<open>The invariant of the fetches: none is pending, or exactly one is, and then the
  component is loading with no error set.\<close>

definition fetch_inv :: "world \<Rightarrow> bool" where
  "fetch_inv w =
     (pending w = [] \<or>
      (length (pending w) = 1 \<and> loading (state w) \<and> error (state w) = JsNull))"

text \<open>The contract of the page fetcher: a page holds at most \<open>n\<close> transactions.\<close>

definition page_bounded :: "nat \<Rightarrow> event \<Rightarrow> bool" where
  "page_bounded n ev =
     (case ev of FetchResolved i d \<Rightarrow> length (data.transactions d) \<le> n | _ \<Rightarrow> True)"

subsection \<open>Concrete inputs\<close>

definition tx_a :: tx where
  "tx_a = \<lparr> type = None, tx_id = ''a'', tx.timestamp = 30 \<rparr>"

definition tx_b :: tx where
  "tx_b = \<lparr> type = None, tx_id = ''b'', tx.timestamp = 20 \<rparr>"

definition ws_new :: tx where
  "ws_new = \<lparr> type = Some ''network:new_tx_accepted'', tx_id = ''n'', tx.timestamp = 40 \<rparr>"

definition ws_other :: tx where
  "ws_other = \<lparr> type = Some ''dashboard:metrics'', tx_id = ''m'', tx.timestamp = 50 \<rparr>"

definition accept_all :: "tx \<Rightarrow> bool" where
  "accept_all t = True"

definition url_next :: "(string \<times> string) list" where
  "url_next = [(''ts'', ''20''), (''hash'', ''b''), (''page'', ''next'')]"

definition url_previous :: "(string \<times> string) list" where
  "url_previous = [(''ts'', ''30''), (''hash'', ''a''), (''page'', ''previous'')]"

definition qp_none :: queryParams where
  "qp_none = \<lparr> queryParams.timestamp = None, hash = None, page = None \<rparr>"

definition qp_next :: queryParams where
  "qp_next = \<lparr> queryParams.timestamp = Some ''20'', hash = Some ''b'', page = Some ''next'' \<rparr>"

definition qp_previous :: queryParams where
  "qp_previous =
     \<lparr> queryParams.timestamp = Some ''30'', hash = Some ''a'', page = Some ''previous'' \<rparr>"

definition page_ab :: data where
  "page_ab = \<lparr> data.transactions = [tx_a, tx_b], has_more = True \<rparr>"

definition page_ab_last :: data where
  "page_ab_last = \<lparr> data.transactions = [tx_a, tx_b], has_more = False \<rparr>"

definition page_a_last :: data where
  "page_a_last = \<lparr> data.transactions = [tx_a], has_more = False \<rparr>"

text \<open>The first page has arrived and the user has followed the link to the next page.\<close>

definition w_idle :: world where
  "w_idle = run 2 accept_all [FetchResolved 0 page_ab, UrlChanged url_next] (mount [])"

text \<open>The update after the URL change issues the fetch of the next page, which is
  rejected.\<close>

definition w_loading :: world where
  "w_loading = componentDidUpdate (state w_idle) w_idle"

definition w_error :: world where
  "w_error = fetch_rejected 0 (JsString ''simulated error!'') w_loading"

text \<open>Then the next update issues the fetch again.\<close>

definition evs_retry :: "event list" where
  "evs_retry =
     [FetchResolved 0 page_ab, UrlChanged url_next, DidUpdate (state w_idle),
      FetchRejected 0 (JsString ''simulated error!''), DidUpdate (state w_loading),
      DidUpdate (state w_error)]"



text \<open>The next page has arrived: the window is paginated back.\<close>

definition w_page2 :: world where
  "w_page2 = fetch_resolved 0 page_ab w_loading"

text \<open>The only page has arrived, and fills the window of size 2.\<close>

definition w_full :: world where
  "w_full = run 2 accept_all [FetchResolved 0 page_ab_last] (mount [])"

text \<open>Mounted on a \<^verbatim>\<open>previous\<close> URL and unmounted before the fetch has settled.\<close>

definition w_unmounted :: world where
  "w_unmounted = run 2 accept_all [Unmount] (mount url_previous)"

section \<open>Auxiliary facts\<close>

subsection \<open>The URL\<close>

lemma obtainQueryParams_clearQueryParams:
  "obtainQueryParams (clearQueryParams w) = \<lparr> timestamp = None, hash = None, page = None \<rparr>"
  apply (simp add: obtainQueryParams_def clearQueryParams_def params_get_def params_delete_def)
  apply (simp add: map_of_eq_None_iff image_iff)
  done

lemma handleDataFetched_location_search:
  "location_search (handleDataFetched d qp w) =
     (if page qp = Some ''previous'' \<and> \<not> has_more d
      then location_search (clearQueryParams w) else location_search w)"
  by (simp add: handleDataFetched_def Let_def)

lemma obtainQueryParams_cong:
  "location_search w = location_search w' \<Longrightarrow> obtainQueryParams w = obtainQueryParams w'"
  by (simp add: obtainQueryParams_def)

lemma handleDataFetched_clears:
  assumes "page qp = Some ''previous''" and "\<not> has_more d"
  shows "obtainQueryParams (handleDataFetched d qp w) =
           \<lparr> timestamp = None, hash = None, page = None \<rparr>"
proof -
  have "location_search (handleDataFetched d qp w) = location_search (clearQueryParams w)"
    using assms by (simp add: handleDataFetched_location_search)
  then have "obtainQueryParams (handleDataFetched d qp w) = obtainQueryParams (clearQueryParams w)"
    by (rule obtainQueryParams_cong)
  then show ?thesis by (simp add: obtainQueryParams_clearQueryParams)
qed

subsection \<open>The list helper\<close>

lemma helpers_updateListWs_nonempty: "helpers_updateListWs l t n \<noteq> []"
  by (auto simp: helpers_updateListWs_def)

lemma helpers_updateListWs_length:
  "0 < n \<Longrightarrow> length l \<le> n \<Longrightarrow> length (helpers_updateListWs l t n) \<le> n"
  by (auto simp: helpers_updateListWs_def)

lemma helpers_updateListWs_present:
  "tx_id t \<in> set (map tx_id (helpers_updateListWs l t n))"
  by (auto simp: helpers_updateListWs_def)

lemma helpers_updateListWs_twice:
  "helpers_updateListWs (helpers_updateListWs l t n) t n = helpers_updateListWs l t n"
  by (auto simp: helpers_updateListWs_def)

subsection \<open>Websocket deliveries\<close>

lemma ws_frame_refl: "ws_frame w w"
  by (simp add: ws_frame_def)

lemma ws_frame_trans: "ws_frame a b \<Longrightarrow> ws_frame b c \<Longrightarrow> ws_frame a c"
  by (simp add: ws_frame_def)

text \<open>With the helper of the specification, \<^verbatim>\<open>updateListWs\<close> never throws.\<close>

lemma updateListWs_total: "\<exists>w'. updateListWs n p t w = Inr w'"
  using helpers_updateListWs_nonempty[of "transactions (state w)" t n]
  by (auto simp: updateListWs_def Let_def split: list.splits)

lemma handleWebsocket_total: "\<exists>w'. handleWebsocket n p t w = Inr w'"
  using updateListWs_total[of n p t w] by (simp add: handleWebsocket_def)

lemma updateListWs_frame: "updateListWs n p t w = Inr w' \<Longrightarrow> ws_frame w w'"
  by (auto simp: updateListWs_def Let_def ws_frame_def split: if_splits list.splits)

lemma handleWebsocket_frame: "handleWebsocket n p t w = Inr w' \<Longrightarrow> ws_frame w w'"
  by (auto simp: handleWebsocket_def ws_frame_refl dest: updateListWs_frame split: if_splits)

lemma emit_frame: "ws_frame w (emit n p ch t ls w)"
proof (induction ls arbitrary: w)
  case Nil
  show ?case by (simp add: ws_frame_refl)
next
  case (Cons l ls)
  show ?case
  proof (cases "l = ch")
    case False
    then show ?thesis using Cons.IH by simp
  next
    case True
    obtain w' where w': "handleWebsocket n p t w = Inr w'"
      using handleWebsocket_total by blast
    let ?w = "if mounted w then w' else w"
    have "ws_frame w w'" using w' by (rule handleWebsocket_frame)
    then have "ws_frame w ?w" by (simp add: ws_frame_refl)
    moreover have "ws_frame ?w (emit n p ch t ls ?w)" by (rule Cons.IH)
    ultimately have "ws_frame w (emit n p ch t ls ?w)" by (rule ws_frame_trans)
    then show ?thesis using True w' by simp
  qed
qed

lemma updateListWs_length:
  "0 < n \<Longrightarrow> length (transactions (state w)) \<le> n \<Longrightarrow> updateListWs n p t w = Inr w' \<Longrightarrow>
   length (transactions (state w')) \<le> n"
  using helpers_updateListWs_length[of n "transactions (state w)" t]
  by (auto simp: updateListWs_def Let_def split: if_splits list.splits)

lemma handleWebsocket_length:
  "0 < n \<Longrightarrow> length (transactions (state w)) \<le> n \<Longrightarrow> handleWebsocket n p t w = Inr w' \<Longrightarrow>
   length (transactions (state w')) \<le> n"
  by (auto simp: handleWebsocket_def dest: updateListWs_length split: if_splits)

lemma emit_length:
  "0 < n \<Longrightarrow> length (transactions (state w)) \<le> n \<Longrightarrow>
   length (transactions (state (emit n p ch t ls w))) \<le> n"
proof (induction ls arbitrary: w)
  case Nil
  then show ?case by simp
next
  case (Cons l ls)
  obtain w' where w': "handleWebsocket n p t w = Inr w'"
    using handleWebsocket_total by blast
  have "length (transactions (state w')) \<le> n"
    using Cons.prems w' by (blast intro: handleWebsocket_length)
  then have "length (transactions (state (if mounted w then w' else w))) \<le> n"
    using Cons.prems by simp
  then show ?case using Cons w' by auto
qed

lemma emit_hasBefore: "hasBefore (state w) \<Longrightarrow> emit n p ch t ls w = w"
  by (induction ls) (simp_all add: handleWebsocket_def updateListWs_def)

lemma emit_other_type:
  "type t \<noteq> Some ''network:new_tx_accepted'' \<Longrightarrow> emit n p ch t ls w = w"
  by (induction ls) (simp_all add: handleWebsocket_def)

lemma handleWebsocket_present:
  "tx_id t \<in> set (map tx_id (transactions (state w))) \<Longrightarrow> handleWebsocket n p t w = Inr w' \<Longrightarrow>
   transactions (state w') = transactions (state w)"
  by (auto simp: handleWebsocket_def updateListWs_def helpers_updateListWs_def Let_def
      split: if_splits list.splits)

lemma emit_present:
  "tx_id t \<in> set (map tx_id (transactions (state w))) \<Longrightarrow>
   transactions (state (emit n p ch t ls w)) = transactions (state w)"
proof (induction ls arbitrary: w)
  case Nil
  show ?case by simp
next
  case (Cons l ls)
  show ?case
  proof (cases "l = ch \<and> mounted w")
    case False
    obtain w' where w': "handleWebsocket n p t w = Inr w'"
      using handleWebsocket_total by blast
    have "emit n p ch t (l # ls) w = emit n p ch t ls w"
      using False w' by auto
    then show ?thesis using Cons.IH[OF Cons.prems] by (simp only:)
  next
    case True
    obtain w' where w': "handleWebsocket n p t w = Inr w'"
      using handleWebsocket_total by blast
    have eq: "transactions (state w') = transactions (state w)"
      using Cons.prems w' by (rule handleWebsocket_present)
    have step: "emit n p ch t (l # ls) w = emit n p ch t ls w'"
      using True w' by simp
    have "tx_id t \<in> set (map tx_id (transactions (state w')))"
      using Cons.prems by (simp only: eq)
    then have "transactions (state (emit n p ch t ls w')) = transactions (state w')"
      by (rule Cons.IH)
    then show ?thesis by (simp only: step eq)
  qed
qed

lemma handleWebsocket_effect:
  "handleWebsocket n p t w = Inr w' \<Longrightarrow>
   w' = w \<or> tx_id t \<in> set (map tx_id (transactions (state w')))"
  using helpers_updateListWs_present[of t "transactions (state w)" n]
  by (auto simp: handleWebsocket_def updateListWs_def Let_def split: if_splits list.splits)

lemma emit_effect:
  "emit n p ch t ls w = w \<or> tx_id t \<in> set (map tx_id (transactions (state (emit n p ch t ls w))))"
proof (induction ls arbitrary: w)
  case Nil
  show ?case by simp
next
  case (Cons l ls)
  show ?case
  proof (cases "l = ch")
    case False
    then show ?thesis using Cons.IH[of w] by simp
  next
    case True
    obtain w' where w': "handleWebsocket n p t w = Inr w'"
      using handleWebsocket_total by blast
    let ?w = "if mounted w then w' else w"
    from handleWebsocket_effect[OF w']
    have "?w = w \<or> tx_id t \<in> set (map tx_id (transactions (state ?w)))" by auto
    then show ?thesis
    proof
      assume "?w = w"
      then show ?thesis using True w' Cons.IH[of w] by simp
    next
      assume "tx_id t \<in> set (map tx_id (transactions (state ?w)))"
      then show ?thesis using True w' emit_present[of t ?w n p ch ls] by simp
    qed
  qed
qed

subsection \<open>Runs\<close>

lemma run_append: "run n p (xs @ ys) w = run n p ys (run n p xs w)"
  by (induction xs arbitrary: w) simp_all

lemma handleDataFetched_pending: "pending (handleDataFetched d qp w) = pending w"
  by (simp add: handleDataFetched_def clearQueryParams_def Let_def)

lemma handleDataFetched_ws_listeners: "ws_listeners (handleDataFetched d qp w) = ws_listeners w"
  by (simp add: handleDataFetched_def clearQueryParams_def Let_def)

lemma handleDataFetched_mounted: "mounted (handleDataFetched d qp w) = mounted w"
  by (simp add: handleDataFetched_def clearQueryParams_def Let_def)

lemma handleDataFetched_error: "error (state (handleDataFetched d qp w)) = error (state w)"
  by (simp add: handleDataFetched_def clearQueryParams_def Let_def)

lemma handleDataFetched_loading: "\<not> loading (state (handleDataFetched d qp w))"
  by (simp add: handleDataFetched_def clearQueryParams_def Let_def)

lemma fetch_inv_mount: "fetch_inv (mount search)"
  by (simp add: fetch_inv_def mount_def componentDidMount_def constructor_def getData_def Let_def)

lemma fetch_inv_componentDidUpdate: "fetch_inv w \<Longrightarrow> fetch_inv (componentDidUpdate prev w)"
  by (auto simp: fetch_inv_def componentDidUpdate_def getData_def Let_def)

lemma settle_pending_single:
  "length (pending w) = 1 \<Longrightarrow> i < length (pending w) \<Longrightarrow> pending (settle i w) = []"
  by (cases "pending w") (auto simp: settle_def)

lemma fetch_resolved_pending:
  "pending (fetch_resolved i d w) = (if i < length (pending w) then pending (settle i w) else pending w)"
  by (simp add: fetch_resolved_def handleDataFetched_pending Let_def)

lemma fetch_rejected_pending:
  "pending (fetch_rejected i e w) = (if i < length (pending w) then pending (settle i w) else pending w)"
  by (simp add: fetch_rejected_def getData_rejected_def unmount_def componentWillUnmount_def
      settle_def Let_def)

lemma fetch_inv_fetch_resolved:
  assumes "fetch_inv w"
  shows "fetch_inv (fetch_resolved i d w)"
proof (cases "i < length (pending w)")
  case False
  then show ?thesis using assms by (simp add: fetch_resolved_def)
next
  case True
  then have "length (pending w) = 1" using assms by (auto simp: fetch_inv_def)
  then have "pending (settle i w) = []" using True by (rule settle_pending_single)
  then show ?thesis using True by (simp add: fetch_inv_def fetch_resolved_pending)
qed

lemma fetch_inv_fetch_rejected:
  assumes "fetch_inv w"
  shows "fetch_inv (fetch_rejected i e w)"
proof (cases "i < length (pending w)")
  case False
  then show ?thesis using assms by (simp add: fetch_rejected_def)
next
  case True
  then have "length (pending w) = 1" using assms by (auto simp: fetch_inv_def)
  then have "pending (settle i w) = []" using True by (rule settle_pending_single)
  then show ?thesis using True by (simp add: fetch_inv_def fetch_rejected_pending)
qed

lemma fetch_inv_frame: "ws_frame w w' \<Longrightarrow> fetch_inv w \<Longrightarrow> fetch_inv w'"
  by (simp add: ws_frame_def fetch_inv_def)

lemma fetch_inv_handle_event:
  assumes "fetch_inv w"
  shows "fetch_inv (handle_event n p ev w)"
proof (cases ev)
  case (UrlChanged search)
  then show ?thesis using assms by (simp add: fetch_inv_def)
next
  case (DidUpdate prev)
  then show ?thesis using assms by (simp add: fetch_inv_componentDidUpdate)
next
  case (FetchResolved i d)
  then show ?thesis using assms by (simp add: fetch_inv_fetch_resolved)
next
  case (FetchRejected i e)
  then show ?thesis using assms by (simp add: fetch_inv_fetch_rejected)
next
  case (WsEmit ch t)
  then show ?thesis using assms emit_frame[of w n p ch t "ws_listeners w"]
    by (auto intro: fetch_inv_frame)
next
  case Unmount
  then show ?thesis using assms by (simp add: fetch_inv_def unmount_def componentWillUnmount_def)
qed

lemma fetch_inv_run: "fetch_inv w \<Longrightarrow> fetch_inv (run n p evs w)"
  by (induction evs arbitrary: w) (simp_all add: fetch_inv_handle_event)

lemma fetch_inv_reachable: "fetch_inv (run n p evs (mount search))"
  by (rule fetch_inv_run) (rule fetch_inv_mount)


lemma length_handle_event:
  assumes "0 < n" "length (transactions (state w)) \<le> n" "page_bounded n ev"
  shows "length (transactions (state (handle_event n p ev w))) \<le> n"
proof (cases ev)
  case (WsEmit ch t)
  then show ?thesis using assms emit_length[of n w p ch t] by simp
next
  case (FetchResolved i d)
  then show ?thesis using assms
    by (simp add: page_bounded_def fetch_resolved_def handleDataFetched_def settle_def
        clearQueryParams_def Let_def)
next
  case (DidUpdate prev)
  then show ?thesis using assms by (simp add: componentDidUpdate_def getData_def Let_def)
next
  case (FetchRejected i e)
  then show ?thesis using assms
    by (simp add: fetch_rejected_def getData_rejected_def settle_def unmount_def
        componentWillUnmount_def Let_def)
qed (use assms in \<open>simp_all add: unmount_def componentWillUnmount_def\<close>)

lemma length_run:
  "0 < n \<Longrightarrow> length (transactions (state w)) \<le> n \<Longrightarrow> list_all (page_bounded n) evs \<Longrightarrow>
   length (transactions (state (run n p evs w))) \<le> n"
  by (induction evs arbitrary: w) (simp_all add: length_handle_event)

lemma mount_transactions: "transactions (state (mount search)) = []"
  by (simp add: mount_def componentDidMount_def constructor_def getData_def Let_def)

text \<open>The listener is registered exactly as long as the component is mounted.\<close>

lemma listener_handle_event:
  assumes "(mounted w \<and> ws_listeners w = [''network'']) \<or> (\<not> mounted w \<and> ws_listeners w = [])"
  shows "(mounted (handle_event n p ev w) \<and> ws_listeners (handle_event n p ev w) = [''network'']) \<or>
         (\<not> mounted (handle_event n p ev w) \<and> ws_listeners (handle_event n p ev w) = [])"
proof (cases ev)
  case (WsEmit ch t)
  then show ?thesis using assms emit_frame[of w n p ch t "ws_listeners w"]
    by (simp add: ws_frame_def)
next
  case (FetchResolved i d)
  then show ?thesis using assms
    by (auto simp: fetch_resolved_def handleDataFetched_ws_listeners handleDataFetched_mounted
        settle_def Let_def)
next
  case (DidUpdate prev)
  then show ?thesis using assms by (auto simp: componentDidUpdate_def getData_def Let_def)
next
  case (FetchRejected i e)
  then show ?thesis using assms
    by (auto simp: fetch_rejected_def getData_rejected_def settle_def unmount_def
        componentWillUnmount_def Let_def)
next
  case Unmount
  then show ?thesis using assms by (auto simp: unmount_def componentWillUnmount_def)
next
  case (UrlChanged search)
  then show ?thesis using assms by simp
qed

lemma listener_run:
  "(mounted w \<and> ws_listeners w = [''network'']) \<or> (\<not> mounted w \<and> ws_listeners w = []) \<Longrightarrow>
   (mounted (run n p evs w) \<and> ws_listeners (run n p evs w) = [''network'']) \<or>
   (\<not> mounted (run n p evs w) \<and> ws_listeners (run n p evs w) = [])"
proof (induction evs arbitrary: w)
  case Nil
  then show ?case by simp
next
  case (Cons ev evs)
  have "(mounted (handle_event n p ev w) \<and> ws_listeners (handle_event n p ev w) = [''network'']) \<or>
        (\<not> mounted (handle_event n p ev w) \<and> ws_listeners (handle_event n p ev w) = [])"
    using Cons.prems by (rule listener_handle_event)
  then show ?case using Cons.IH[of "handle_event n p ev w"] by simp
qed

lemma listener_reachable:
  "(mounted (run n p evs (mount search)) \<and> ws_listeners (run n p evs (mount search)) = [''network'']) \<or>
   (\<not> mounted (run n p evs (mount search)) \<and> ws_listeners (run n p evs (mount search)) = [])"
  by (rule listener_run)
     (simp add: mount_def componentDidMount_def constructor_def getData_def Let_def)

lemma unmounted_after_Unmount:
  "\<not> mounted (run n p (evs @ [Unmount]) (mount search)) \<and>
   ws_listeners (run n p (evs @ [Unmount]) (mount search)) = []"
  using listener_reachable[of n p evs search]
  by (auto simp: run_append unmount_def componentWillUnmount_def)

text \<open>An unmounted component: no event changes its state, and it stays unmounted.\<close>

lemma emit_unmounted: "\<not> mounted w \<Longrightarrow> emit n p ch t ls w = w"
proof (induction ls)
  case Nil
  show ?case by simp
next
  case (Cons l ls)
  obtain w' where "handleWebsocket n p t w = Inr w'"
    using handleWebsocket_total by blast
  then show ?case using Cons by simp
qed

lemma unmounted_handle_event:
  assumes "\<not> mounted w"
  shows "state (handle_event n p ev w) = state w \<and> \<not> mounted (handle_event n p ev w)"
proof (cases ev)
  case (WsEmit ch t)
  then show ?thesis using assms by (simp add: emit_unmounted)
next
  case (FetchResolved i d)
  then show ?thesis using assms
    by (simp add: fetch_resolved_def handleDataFetched_mounted settle_def Let_def)
next
  case (FetchRejected i e)
  then show ?thesis using assms by (simp add: fetch_rejected_def settle_def Let_def)
next
  case Unmount
  then show ?thesis using assms by (simp add: unmount_def)
qed (use assms in simp_all)

lemma unmounted_run:
  "\<not> mounted w \<Longrightarrow> state (run n p evs w) = state w \<and> \<not> mounted (run n p evs w)"
proof (induction evs arbitrary: w)
  case Nil
  then show ?case by simp
next
  case (Cons ev evs)
  have h: "state (handle_event n p ev w) = state w \<and> \<not> mounted (handle_event n p ev w)"
    using Cons.prems by (rule unmounted_handle_event)
  then show ?case using Cons.IH[of "handle_event n p ev w"] by simp
qed





section \<open>The claims\<close>

subsection \<open>Flags after a fetch\<close>

text \<open>
  C1. \<^verbatim>\<open>handleDataFetched\<close> derives the navigation flags from the direction the page
  was requested with. For \<^verbatim>\<open>'next'\<close>, \<open>hasBefore\<close> is true and \<open>hasAfter\<close> is the
  page's \<open>has_more\<close>. For \<^verbatim>\<open>'previous'\<close>, \<open>hasAfter\<close> is true and \<open>hasBefore\<close> is
  \<open>has_more\<close>, and when \<open>has_more\<close> is false the URL parameters are cleared: reading
  them back gives the triple of three \<^verbatim>\<open>null\<close>s. For any other direction, the absent
  one of the first load among them, \<open>hasBefore\<close> is false and \<open>hasAfter\<close> is
  \<open>has_more\<close>.
\<close>

theorem handleDataFetched_flags:
  "(page qp = Some ''next'' \<longrightarrow>
      hasBefore (state (handleDataFetched d qp w)) \<and>
      hasAfter (state (handleDataFetched d qp w)) = has_more d) \<and>
   (page qp = Some ''previous'' \<longrightarrow>
      hasAfter (state (handleDataFetched d qp w)) \<and>
      hasBefore (state (handleDataFetched d qp w)) = has_more d \<and>
      (\<not> has_more d \<longrightarrow>
         obtainQueryParams (handleDataFetched d qp w) =
           \<lparr> timestamp = None, hash = None, page = None \<rparr>)) \<and>
   (page qp \<noteq> Some ''previous'' \<and> page qp \<noteq> Some ''next'' \<longrightarrow>
      \<not> hasBefore (state (handleDataFetched d qp w)) \<and>
      hasAfter (state (handleDataFetched d qp w)) = has_more d)"
proof -
  have flags:
    "hasBefore (state (handleDataFetched d qp w)) =
       (if page qp = Some ''previous'' then has_more d else page qp = Some ''next'')"
    "hasAfter (state (handleDataFetched d qp w)) =
       (if page qp = Some ''previous'' then True else has_more d)"
    by (simp_all add: handleDataFetched_def Let_def)
  show ?thesis
    using handleDataFetched_clears[of qp d w] by (simp add: flags)
qed

theorem handleDataFetched_flags_witness:
  "hasBefore (state (handleDataFetched page_a_last qp_next w_loading)) \<and>
   \<not> hasAfter (state (handleDataFetched page_a_last qp_next w_loading)) \<and>
   obtainQueryParams (mount url_previous) = qp_previous \<and>
   hasAfter (state (handleDataFetched page_a_last qp_previous (mount url_previous))) \<and>
   \<not> hasBefore (state (handleDataFetched page_a_last qp_previous (mount url_previous))) \<and>
   obtainQueryParams (handleDataFetched page_a_last qp_previous (mount url_previous)) =
     qp_none \<and>
   \<not> hasBefore (state (handleDataFetched page_ab qp_none (mount []))) \<and>
   hasAfter (state (handleDataFetched page_ab qp_none (mount [])))"
proof -
  have "obtainQueryParams (mount url_previous) = qp_previous"
    by code_simp
  then show ?thesis
    using handleDataFetched_flags[of qp_next page_a_last w_loading]
      handleDataFetched_flags[of qp_previous page_a_last "mount url_previous"]
      handleDataFetched_flags[of qp_none page_ab "mount []"]
    by (simp add: qp_next_def qp_previous_def qp_none_def page_a_last_def page_ab_def)
qed

subsection \<open>A failed fetch\<close>




subsection \<open>When a fetch is issued again\<close>



subsection \<open>Live events on a later page\<close>

text \<open>
  C4. While \<open>hasBefore\<close> is set, a live event changes nothing: \<^verbatim>\<open>updateListWs\<close>
  returns without calling \<^verbatim>\<open>props.shouldUpdateList\<close>, whatever the record and the
  predicate are, and the delivery of a message on any channel leaves the whole world,
  the window in it, as it was.
\<close>

theorem no_live_merge_when_paginated_back:
  assumes "hasBefore (state w)"
  shows "updateListWs n p t w = Inr w \<and> handleWebsocket n p t w = Inr w \<and>
         handle_event n p (WsEmit ch t) w = w"
  using assms by (simp add: updateListWs_def handleWebsocket_def emit_hasBefore)

theorem no_live_merge_when_paginated_back_witness:
  "hasBefore (state w_page2) \<and> accept_all ws_new \<and>
   ws_listeners w_page2 = [''network''] \<and>
   updateListWs 2 accept_all ws_new w_page2 = Inr w_page2 \<and>
   handle_event 2 accept_all (WsEmit ''network'' ws_new) w_page2 = w_page2"
proof -
  have h: "hasBefore (state w_page2)" by code_simp
  have l: "ws_listeners w_page2 = [''network'']" by code_simp
  show ?thesis
    using h l no_live_merge_when_paginated_back[OF h, of 2 accept_all ws_new "''network''"]
    by (simp add: accept_all_def)
qed

subsection \<open>The capacity of the window\<close>

text \<open>
  C5. For a page size \<open>TX_COUNT\<close> (positive) and a page fetcher whose pages hold at most
  \<open>TX_COUNT\<close> transactions, the window never holds more than \<open>TX_COUNT\<close> of them:
  after every sequence of events from mount, live merges and fetch completions among
  them. The merge is the list helper of the specification.
\<close>

theorem window_capacity:
  assumes "0 < TX_COUNT" and "list_all (page_bounded TX_COUNT) evs"
  shows "length (transactions (state (run TX_COUNT shouldUpdateList evs (mount search)))) \<le> TX_COUNT"
  using assms by (intro length_run) (simp_all add: mount_transactions)

theorem window_capacity_witness:
  "(0::nat) < 2 \<and>
   list_all (page_bounded 2)
     [FetchResolved 0 page_ab, WsEmit ''network'' ws_new] \<and>
   transactions (state (run 2 accept_all
     [FetchResolved 0 page_ab, WsEmit ''network'' ws_new] (mount []))) =
     [ws_new, tx_a] \<and>
   length (transactions (state (run 2 accept_all
     [FetchResolved 0 page_ab, WsEmit ''network'' ws_new] (mount [])))) \<le> 2"
proof -
  have h: "list_all (page_bounded 2)
     [FetchResolved 0 page_ab, WsEmit ''network'' ws_new]"
    by code_simp
  have t: "transactions (state (run 2 accept_all
     [FetchResolved 0 page_ab, WsEmit ''network'' ws_new] (mount []))) =
     [ws_new, tx_a]"
    by code_simp
  have "(0::nat) < 2" by simp
  from window_capacity[OF this h, of accept_all "[]"] show ?thesis
    using h t by simp
qed

subsection \<open>The flag \<open>hasAfter\<close> after a live merge\<close>

text \<open>
  C6. When a live record is accepted (\<open>hasBefore\<close> is unset and
  \<^verbatim>\<open>props.shouldUpdateList\<close> accepts it), \<^verbatim>\<open>updateListWs\<close> sets the state, and
  \<open>hasAfter\<close> is then true exactly when it was true before or the window held exactly
  \<open>TX_COUNT\<close> records before the merge; otherwise it stays false.
\<close>

theorem live_merge_hasAfter:
  assumes "\<not> hasBefore (state w)" and "shouldUpdateList t"
  shows "\<exists>w'. updateListWs TX_COUNT shouldUpdateList t w = Inr w' \<and>
           hasAfter (state w') =
             (hasAfter (state w) \<or> length (transactions (state w)) = TX_COUNT)"
proof -
  obtain first rest where
    "helpers_updateListWs (transactions (state w)) t TX_COUNT = first # rest"
    using helpers_updateListWs_nonempty[of "transactions (state w)" t TX_COUNT]
    by (cases "helpers_updateListWs (transactions (state w)) t TX_COUNT") auto
  then show ?thesis using assms by (auto simp: updateListWs_def Let_def)
qed

theorem live_merge_hasAfter_witness:
  "\<not> hasBefore (state w_full) \<and> accept_all ws_new \<and>
   \<not> hasAfter (state w_full) \<and> length (transactions (state w_full)) = 2 \<and>
   (\<exists>w'. updateListWs 2 accept_all ws_new w_full = Inr w' \<and> hasAfter (state w'))"
proof -
  have h: "\<not> hasBefore (state w_full)" by code_simp
  have a: "accept_all ws_new" by (simp add: accept_all_def)
  have f: "\<not> hasAfter (state w_full)" "length (transactions (state w_full)) = 2"
    by code_simp+
  show ?thesis
    using h a f live_merge_hasAfter[where w = w_full and shouldUpdateList = accept_all and t = ws_new and TX_COUNT = 2] by simp
qed

subsection \<open>A successful fetch clears the error\<close>

text \<open>
  C7. On every run from mount, when the promise of a pending fetch resolves, the state
  \<^verbatim>\<open>handleDataFetched\<close> sets is \<open>Idle\<close> with no error: it does not touch the
  \<open>error\<close> field itself, but \<^verbatim>\<open>componentDidUpdate\<close> sets the field to
  \<^verbatim>\<open>null\<close> when it issues a fetch, and no fetch is pending while an error is set. On
  a mounted component that state is the state of the component after the event.
\<close>

theorem fetch_success_idle_no_error:
  assumes "i < length (pending (run n p evs (mount search)))"
  shows "status_of (state (handleDataFetched d (pending (run n p evs (mount search)) ! i)
           (settle i (run n p evs (mount search))))) = Idle \<and>
         error (state (handleDataFetched d (pending (run n p evs (mount search)) ! i)
           (settle i (run n p evs (mount search))))) = JsNull \<and>
         (mounted (run n p evs (mount search)) \<longrightarrow>
            status_of (state (fetch_resolved i d (run n p evs (mount search)))) = Idle \<and>
            error (state (fetch_resolved i d (run n p evs (mount search)))) = JsNull)"
proof -
  let ?w = "run n p evs (mount search)"
  let ?w' = "handleDataFetched d (pending ?w ! i) (settle i ?w)"
  have "fetch_inv ?w" by (rule fetch_inv_reachable)
  with assms have e: "error (state ?w) = JsNull" by (auto simp: fetch_inv_def)
  have "error (state (settle i ?w)) = JsNull" using e by (simp add: settle_def)
  then have e': "error (state ?w') = JsNull"
    by (simp add: handleDataFetched_error)
  have l': "\<not> loading (state ?w')"
    by (simp add: handleDataFetched_loading)
  have s': "status_of (state ?w') = Idle" using e' l' by (simp add: status_of_def)
  have "fetch_resolved i d ?w = ?w'" if "mounted ?w"
    using that assms by (simp add: fetch_resolved_def Let_def)
  then show ?thesis using e' s' by simp
qed

theorem fetch_success_idle_no_error_witness:
  "error (state w_error) = JsString ''simulated error!'' \<and>
   0 < length (pending (run 2 accept_all evs_retry (mount []))) \<and>
   mounted (run 2 accept_all evs_retry (mount [])) \<and>
   status_of (state (fetch_resolved 0 page_a_last (run 2 accept_all evs_retry (mount [])))) = Idle \<and>
   error (state (fetch_resolved 0 page_a_last (run 2 accept_all evs_retry (mount [])))) = JsNull"
proof -
  have e: "error (state w_error) = JsString ''simulated error!''" by code_simp
  have h: "0 < length (pending (run 2 accept_all evs_retry (mount [])))" by code_simp
  have m: "mounted (run 2 accept_all evs_retry (mount []))" by code_simp
  show ?thesis
    using e h m fetch_success_idle_no_error[OF h, of page_a_last] by blast
qed

subsection \<open>Merging a record twice\<close>

text \<open>
  C8. With the list helper of the specification, merging a record whose id is already in
  the window leaves the window as it is, merging the same record twice gives the window
  that merging it once gives, and the window of the component after two deliveries of
  the same message is the window after one.
\<close>

theorem live_merge_idempotent:
  "(tx_id t \<in> set (map tx_id l) \<longrightarrow> helpers_updateListWs l t n = l) \<and>
   helpers_updateListWs (helpers_updateListWs l t n) t n = helpers_updateListWs l t n \<and>
   transactions (state (run n p [WsEmit ch t, WsEmit ch t] w)) =
     transactions (state (run n p [WsEmit ch t] w))"
proof -
  let ?w1 = "emit n p ch t (ws_listeners w) w"
  have l: "ws_listeners ?w1 = ws_listeners w"
    using emit_frame[of w n p ch t "ws_listeners w"] by (simp add: ws_frame_def)
  have "transactions (state (emit n p ch t (ws_listeners w) ?w1)) = transactions (state ?w1)"
    using emit_effect[of n p ch t "ws_listeners w" w]
  proof
    assume "?w1 = w"
    then show ?thesis by simp
  next
    assume "tx_id t \<in> set (map tx_id (transactions (state ?w1)))"
    then show ?thesis by (rule emit_present)
  qed
  then show ?thesis
    by (simp add: l helpers_updateListWs_twice) (simp add: helpers_updateListWs_def)
qed

theorem live_merge_idempotent_witness:
  "tx_id ws_new \<in> set (map tx_id [ws_new, tx_a]) \<and>
   helpers_updateListWs [ws_new, tx_a] ws_new 2 = [ws_new, tx_a] \<and>
   helpers_updateListWs [tx_a, tx_b] ws_new 2 = [ws_new, tx_a] \<and>
   helpers_updateListWs (helpers_updateListWs [tx_a, tx_b] ws_new 2) ws_new 2 = [ws_new, tx_a] \<and>
   transactions (state (run 2 accept_all [WsEmit ''network'' ws_new] w_full)) = [ws_new, tx_a] \<and>
   transactions (state (run 2 accept_all
     [WsEmit ''network'' ws_new, WsEmit ''network'' ws_new] w_full)) = [ws_new, tx_a]"
proof -
  have h: "tx_id ws_new \<in> set (map tx_id [ws_new, tx_a])" by simp
  have o1: "helpers_updateListWs [tx_a, tx_b] ws_new 2 = [ws_new, tx_a]"
    by code_simp
  have o2: "transactions (state (run 2 accept_all [WsEmit ''network'' ws_new] w_full)) =
              [ws_new, tx_a]"
    by code_simp
  note present = live_merge_idempotent[of ws_new "[ws_new, tx_a]" 2 accept_all "''network''" w_full]
  note fresh = live_merge_idempotent[of ws_new "[tx_a, tx_b]" 2 accept_all "''network''" w_full]
  have i1: "helpers_updateListWs [ws_new, tx_a] ws_new 2 = [ws_new, tx_a]"
    using present h by blast
  have i2: "helpers_updateListWs (helpers_updateListWs [tx_a, tx_b] ws_new 2) ws_new 2 =
              [ws_new, tx_a]"
    using fresh o1 by metis
  have i3: "transactions (state (run 2 accept_all
              [WsEmit ''network'' ws_new, WsEmit ''network'' ws_new] w_full)) = [ws_new, tx_a]"
    using fresh o2 by metis
  show ?thesis using h i1 o1 i2 o2 i3 by (intro conjI)
qed

subsection \<open>Teardown\<close>

text \<open>
  C9, as amended. After teardown no callback changes the state of the component:
  \<^verbatim>\<open>componentWillUnmount\<close> removes the listener, so that no registration is left
  and a message on any channel changes nothing; the component is unmounted, so that the
  \<^verbatim>\<open>setState\<close> of a fetch continuation is dropped; and the state stays what it was
  through every later sequence of events. A continuation is not a no-op, though: when a
  \<^verbatim>\<open>'previous'\<close> page with \<open>has_more\<close> false resolves, \<^verbatim>\<open>handleDataFetched\<close>
  still clears the URL parameters. On every other resolved page and on every rejection
  the URL is as it was.
\<close>

theorem teardown_keeps_state:
  "ws_listeners (run n p (evs @ [Unmount]) (mount search)) = [] \<and>
   \<not> mounted (run n p (evs @ [Unmount]) (mount search)) \<and>
   handle_event n p (WsEmit ch t) (run n p (evs @ [Unmount]) (mount search)) =
     run n p (evs @ [Unmount]) (mount search) \<and>
   state (run n p later (run n p (evs @ [Unmount]) (mount search))) =
     state (run n p (evs @ [Unmount]) (mount search)) \<and>
   location_search (handle_event n p (FetchRejected i e) (run n p (evs @ [Unmount]) (mount search))) =
     location_search (run n p (evs @ [Unmount]) (mount search)) \<and>
   location_search (handle_event n p (FetchResolved i d) (run n p (evs @ [Unmount]) (mount search))) =
     (if i < length (pending (run n p (evs @ [Unmount]) (mount search))) \<and>
         page (pending (run n p (evs @ [Unmount]) (mount search)) ! i) = Some ''previous'' \<and>
         \<not> has_more d
      then location_search (clearQueryParams (run n p (evs @ [Unmount]) (mount search)))
      else location_search (run n p (evs @ [Unmount]) (mount search))) \<and>
   (i < length (pending (run n p (evs @ [Unmount]) (mount search))) \<and>
    page (pending (run n p (evs @ [Unmount]) (mount search)) ! i) = Some ''previous'' \<and>
    \<not> has_more d \<longrightarrow>
      obtainQueryParams
        (handle_event n p (FetchResolved i d) (run n p (evs @ [Unmount]) (mount search))) =
        \<lparr> timestamp = None, hash = None, page = None \<rparr>)"
proof -
  let ?w = "run n p (evs @ [Unmount]) (mount search)"
  have u: "\<not> mounted ?w" and l: "ws_listeners ?w = []"
    using unmounted_after_Unmount[of n p evs search] by simp_all
  have e: "handle_event n p (WsEmit ch t) ?w = ?w"
    by (simp only: handle_event.simps l emit.simps)
  have s: "state (run n p later ?w) = state ?w"
    using unmounted_run[OF u, of n p later] by simp
  have r: "location_search (handle_event n p (FetchRejected i e) ?w) = location_search ?w"
    using u by (simp add: fetch_rejected_def settle_def Let_def)
  have f: "location_search (handle_event n p (FetchResolved i d) ?w) =
     (if i < length (pending ?w) \<and> page (pending ?w ! i) = Some ''previous'' \<and> \<not> has_more d
      then location_search (clearQueryParams ?w) else location_search ?w)"
    using u
    by (simp add: fetch_resolved_def handleDataFetched_location_search settle_def
        clearQueryParams_def Let_def)
  have c: "obtainQueryParams (handle_event n p (FetchResolved i d) ?w) =
             \<lparr> timestamp = None, hash = None, page = None \<rparr>"
    if "i < length (pending ?w)" "page (pending ?w ! i) = Some ''previous''" "\<not> has_more d"
  proof -
    have "location_search (handle_event n p (FetchResolved i d) ?w) =
            location_search (clearQueryParams ?w)"
      using f that by simp
    then have "obtainQueryParams (handle_event n p (FetchResolved i d) ?w) =
            obtainQueryParams (clearQueryParams ?w)"
      by (rule obtainQueryParams_cong)
    then show ?thesis by (simp add: obtainQueryParams_clearQueryParams)
  qed
  show ?thesis using l u e s r f c by (intro conjI impI) auto
qed

theorem teardown_keeps_state_witness:
  "pending (run 2 accept_all ([FetchResolved 0 page_ab, UrlChanged url_previous,
        DidUpdate (state w_idle)] @ [Unmount]) (mount [])) = [qp_previous] \<and>
   handle_event 2 accept_all (WsEmit ''network'' ws_new)
     (run 2 accept_all ([FetchResolved 0 page_ab, UrlChanged url_previous, DidUpdate (state w_idle)]
        @ [Unmount]) (mount [])) =
   run 2 accept_all ([FetchResolved 0 page_ab, UrlChanged url_previous, DidUpdate (state w_idle)]
        @ [Unmount]) (mount []) \<and>
   state (run 2 accept_all [FetchResolved 0 page_a_last, WsEmit ''network'' ws_new]
     (run 2 accept_all ([FetchResolved 0 page_ab, UrlChanged url_previous, DidUpdate (state w_idle)]
        @ [Unmount]) (mount []))) =
   state (run 2 accept_all ([FetchResolved 0 page_ab, UrlChanged url_previous,
        DidUpdate (state w_idle)] @ [Unmount]) (mount [])) \<and>
   obtainQueryParams (handle_event 2 accept_all (FetchResolved 0 page_a_last)
     (run 2 accept_all ([FetchResolved 0 page_ab, UrlChanged url_previous, DidUpdate (state w_idle)]
        @ [Unmount]) (mount []))) = qp_none"
proof -
  let ?evs = "[FetchResolved 0 page_ab, UrlChanged url_previous, DidUpdate (state w_idle)]"
  let ?w = "run 2 accept_all (?evs @ [Unmount]) (mount [])"
  have q: "pending ?w = [qp_previous]" by code_simp
  note t = teardown_keeps_state[of 2 accept_all ?evs "[]" "''network''" ws_new
      "[FetchResolved 0 page_a_last, WsEmit ''network'' ws_new]" 0 JsNull page_a_last]
  have 1: "handle_event 2 accept_all (WsEmit ''network'' ws_new) ?w = ?w"
    using t by blast
  have 2: "state (run 2 accept_all [FetchResolved 0 page_a_last, WsEmit ''network'' ws_new] ?w) =
           state ?w"
    using t by blast
  have h: "0 < length (pending ?w) \<and> page (pending ?w ! 0) = Some ''previous'' \<and>
           \<not> has_more page_a_last"
    unfolding q by (simp add: qp_previous_def page_a_last_def)
  have "obtainQueryParams (handle_event 2 accept_all (FetchResolved 0 page_a_last) ?w) =
          \<lparr> timestamp = None, hash = None, page = None \<rparr>"
    using t h by blast
  then have 3: "obtainQueryParams (handle_event 2 accept_all (FetchResolved 0 page_a_last) ?w) =
          qp_none"
    by (simp only: qp_none_def)
  show ?thesis using q 1 2 3 by (intro conjI)
qed

text \<open>
  The claim as it was stated makes the continuation of a fetch that resolves after
  teardown a no-op. On the component unmounted before its first fetch has settled, the
  continuation leaves the state alone and removes the parameters from the URL.
\<close>

theorem continuation_after_teardown_counterexample:
  "\<not> mounted w_unmounted \<and> ws_listeners w_unmounted = [] \<and>
   pending w_unmounted = [qp_previous] \<and>
   location_search w_unmounted = url_previous \<and>
   state (handle_event 2 accept_all (FetchResolved 0 page_a_last) w_unmounted) = state w_unmounted \<and>
   location_search (handle_event 2 accept_all (FetchResolved 0 page_a_last) w_unmounted) = [] \<and>
   handle_event 2 accept_all (FetchResolved 0 page_a_last) w_unmounted \<noteq> w_unmounted"
proof -
  have "location_search w_unmounted =
          [(''ts'', ''30''), (''hash'', ''a''), (''page'', ''previous'')]"
    "location_search (handle_event 2 accept_all (FetchResolved 0 page_a_last) w_unmounted) = []"
    "state (handle_event 2 accept_all (FetchResolved 0 page_a_last) w_unmounted) = state w_unmounted"
    "\<not> mounted w_unmounted"
    "ws_listeners w_unmounted = []" "pending w_unmounted = [qp_previous]"
    by code_simp+
  then show ?thesis by (auto simp: url_previous_def)
qed

subsection \<open>Other messages of the \<^verbatim>\<open>network\<close> channel\<close>

text \<open>
  C10. A message whose \<^verbatim>\<open>type\<close> is not \<^verbatim>\<open>'network:new_tx_accepted'\<close> is ignored
  by \<^verbatim>\<open>handleWebsocket\<close>: its delivery on the \<^verbatim>\<open>network\<close> channel leaves the whole
  world, the state of the component in it, as it was.
\<close>

theorem other_network_events_ignored:
  assumes "type wsData \<noteq> Some ''network:new_tx_accepted''"
  shows "handleWebsocket n p wsData w = Inr w \<and>
         handle_event n p (WsEmit ''network'' wsData) w = w"
  using assms by (simp add: handleWebsocket_def emit_other_type)

theorem other_network_events_ignored_witness:
  "type ws_other \<noteq> Some ''network:new_tx_accepted'' \<and>
   \<not> hasBefore (state w_full) \<and> accept_all ws_other \<and>
   ws_listeners w_full = [''network''] \<and>
   handle_event 2 accept_all (WsEmit ''network'' ws_other) w_full = w_full"
proof -
  have h: "type ws_other \<noteq> Some ''network:new_tx_accepted''" by (simp add: ws_other_def)
  have f: "\<not> hasBefore (state w_full)" "ws_listeners w_full = [''network'']" by code_simp+
  show ?thesis
    using h f other_network_events_ignored[OF h, of 2 accept_all w_full]
    by (simp add: accept_all_def)
qed

end
